theory Spec2Isabelle
  imports Complex_Main
begin

section \<open>Data model\<close>

text \<open>
  A row of the \<^verbatim>\<open>rateLimitRecord\<close> table as \<^verbatim>\<open>src/lib/rate-limiter/index.ts\<close> uses it.
  The column \<^verbatim>\<open>key\<close> is unique (the code addresses rows with \<^verbatim>\<open>where: { key }\<close> in
  \<^verbatim>\<open>findUnique\<close>, \<^verbatim>\<open>upsert\<close> and \<^verbatim>\<open>update\<close>), so the table is a map from keys to the
  remaining columns. Timestamps are JavaScript \<^verbatim>\<open>Date\<close> values, that is, integer
  milliseconds since the epoch; counters and limits are integers.
\<close>

record RateLimitRecord =
  count :: int
  expiresAt :: int

type_synonym rateLimitTable = "string \<rightharpoonup> RateLimitRecord"

text \<open>\<^verbatim>\<open>IRateLimitInfo\<close> of \<^verbatim>\<open>src/types/index.ts\<close>.\<close>

record IRateLimitInfo =
  limit :: int
  remaining :: int
  reset :: int

text \<open>
  \<^verbatim>\<open>IRateLimitConfig\<close>; the constructor of \<^verbatim>\<open>RateLimiter\<close> copies its two fields into
  two read-only fields of the same names, and the class has no other field, so one
  record stands for the configuration and for the limiter object built from it.
\<close>

record RateLimiter =
  maxRequests :: int
  windowMs :: int

text \<open>
  The two ways a call can throw: \<^verbatim>\<open>RateLimitError(retryAfter)\<close>, and an exception of the
  storage client, which no method of the limiter catches except \<^verbatim>\<open>cleanupExpired\<close>.
\<close>

datatype error = RateLimitError int | StorageError

text \<open>
  What one call reads from outside the table. The clock is read several times in one
  call, each reading is a field here, in the order of the reads:
  \<^item> \<open>clk_cleanup\<close>: \<^verbatim>\<open>new Date()\<close> in \<^verbatim>\<open>cleanupExpired\<close>;
  \<^item> \<open>clk_now\<close>: \<^verbatim>\<open>new Date()\<close> in \<^verbatim>\<open>consume\<close> (line 64) and in the test of \<^verbatim>\<open>check\<close> (line 42);
  \<^item> \<open>clk_reset1\<close>, \<open>clk_reset2\<close>: \<^verbatim>\<open>Date.now()\<close> in the first and the second call of
    \<^verbatim>\<open>calculateResetTime\<close> (\<^verbatim>\<open>consume\<close> evaluates it for the \<^verbatim>\<open>update\<close> and then for the
    \<^verbatim>\<open>create\<close> argument of \<^verbatim>\<open>upsert\<close>; \<^verbatim>\<open>check\<close> calls it once).
  The three flags say whether the storage client throws in the cleanup sweep, in
  \<^verbatim>\<open>findUnique\<close>, and in the one write of the call (\<^verbatim>\<open>upsert\<close>, \<^verbatim>\<open>update\<close>, or the
  \<^verbatim>\<open>deleteMany\<close> of \<^verbatim>\<open>reset\<close>).
\<close>

record env =
  clk_cleanup :: int
  clk_now :: int
  clk_reset1 :: int
  clk_reset2 :: int
  fail_cleanup :: bool
  fail_find :: bool
  fail_write :: bool

section \<open>The storage client\<close>

text \<open>
  Modelled from the spec: the generated storage client \<^verbatim>\<open>prisma.rateLimitRecord\<close> (its
  schema and client code are not among the sources). Section 6 of the specification
  gives its contract: \<^verbatim>\<open>findOne(key)\<close>, an atomic create-or-replace \<^verbatim>\<open>upsert\<close>, an atomic
  \<^verbatim>\<open>count += 1\<close> returning the updated record, a bulk delete of the rows with
  \<^verbatim>\<open>expiresAt < now\<close>, and a delete by key. Each operation either throws and leaves the
  table as it was, or takes effect as a whole. \<^verbatim>\<open>update\<close> on a missing row throws.
\<close>

definition findUnique :: "bool \<Rightarrow> rateLimitTable \<Rightarrow> string \<Rightarrow> error + RateLimitRecord option" where
  "findUnique fails tbl key = (if fails then Inl StorageError else Inr (tbl key))"

definition upsert ::
  "bool \<Rightarrow> rateLimitTable \<Rightarrow> string \<Rightarrow> RateLimitRecord \<Rightarrow> RateLimitRecord
     \<Rightarrow> error + RateLimitRecord \<times> rateLimitTable" where
  "upsert fails tbl key upd cre =
     (if fails then Inl StorageError
      else case tbl key of
             Some _ \<Rightarrow> Inr (upd, tbl(key \<mapsto> upd))
           | None \<Rightarrow> Inr (cre, tbl(key \<mapsto> cre)))"

definition update_increment ::
  "bool \<Rightarrow> rateLimitTable \<Rightarrow> string \<Rightarrow> error + RateLimitRecord \<times> rateLimitTable" where
  "update_increment fails tbl key =
     (if fails then Inl StorageError
      else case tbl key of
             None \<Rightarrow> Inl StorageError
           | Some r \<Rightarrow> Inr (r\<lparr>count := count r + 1\<rparr>, tbl(key \<mapsto> r\<lparr>count := count r + 1\<rparr>)))"

definition deleteMany_expired :: "bool \<Rightarrow> rateLimitTable \<Rightarrow> int \<Rightarrow> error + rateLimitTable" where
  "deleteMany_expired fails tbl t =
     (if fails then Inl StorageError
      else Inr (\<lambda>k. case tbl k of
                       None \<Rightarrow> None
                     | Some r \<Rightarrow> if expiresAt r < t then None else Some r))"

definition deleteMany_key :: "bool \<Rightarrow> rateLimitTable \<Rightarrow> string \<Rightarrow> error + rateLimitTable" where
  "deleteMany_key fails tbl key =
     (if fails then Inl StorageError else Inr (tbl(key := None)))"

section \<open>RateLimiter\<close>

text \<open>\<^verbatim>\<open>generateKey\<close>: the template string \<^verbatim>\<open>`rate_limit:${identifier}`\<close>.\<close>

definition generateKey :: "string \<Rightarrow> string" where
  "generateKey identifier = ''rate_limit:'' @ identifier"

text \<open>\<^verbatim>\<open>calculateResetTime\<close>, given the reading of \<^verbatim>\<open>Date.now()\<close>.\<close>

definition calculateResetTime :: "RateLimiter \<Rightarrow> int \<Rightarrow> int" where
  "calculateResetTime this dateNow = dateNow + windowMs this"

text \<open>
  \<^verbatim>\<open>Math.ceil(ms / 1000)\<close> for an integer number of milliseconds: the ceiling of the
  quotient (for timestamps the floating-point quotient rounds to the same integer).
\<close>

definition ceilSeconds :: "int \<Rightarrow> int" where
  "ceilSeconds ms = - ((- ms) div 1000)"

text \<open>
  \<^verbatim>\<open>cleanupExpired\<close>: the bulk delete inside \<^verbatim>\<open>try\<close>, with an empty \<^verbatim>\<open>catch\<close>.
\<close>

definition cleanupExpired :: "env \<Rightarrow> rateLimitTable \<Rightarrow> rateLimitTable" where
  "cleanupExpired e tbl =
     (case deleteMany_expired (fail_cleanup e) tbl (clk_cleanup e) of
        Inl _ \<Rightarrow> tbl
      | Inr tbl' \<Rightarrow> tbl')"

text \<open>
  The object returned at the end of \<^verbatim>\<open>check\<close> and \<^verbatim>\<open>consume\<close> for a record:
  \<^verbatim>\<open>{limit, remaining: Math.max(0, maxRequests - count), reset: ceil(expiresAt / 1000)}\<close>.
\<close>

definition infoOf :: "RateLimiter \<Rightarrow> RateLimitRecord \<Rightarrow> IRateLimitInfo" where
  "infoOf this r =
     \<lparr>limit = maxRequests this,
      remaining = max 0 (maxRequests this - count r),
      reset = ceilSeconds (expiresAt r)\<rparr>"

text \<open>
  \<^verbatim>\<open>check\<close>. The result is the value returned or the error thrown, with the table as the
  call leaves it.
\<close>

definition check ::
  "RateLimiter \<Rightarrow> env \<Rightarrow> rateLimitTable \<Rightarrow> string \<Rightarrow> (error + IRateLimitInfo) \<times> rateLimitTable" where
  "check this e tbl identifier =
     (let key = generateKey identifier;
          tbl1 = cleanupExpired e tbl;
          hypothetical =
            \<lparr>limit = maxRequests this,
             remaining = maxRequests this,
             reset = ceilSeconds (calculateResetTime this (clk_reset1 e))\<rparr>
      in case findUnique (fail_find e) tbl1 key of
           Inl err \<Rightarrow> (Inl err, tbl1)
         | Inr None \<Rightarrow> (Inr hypothetical, tbl1)
         | Inr (Some r) \<Rightarrow>
             if expiresAt r < clk_now e then (Inr hypothetical, tbl1)
             else (Inr (infoOf this r), tbl1))"

text \<open>
  \<^verbatim>\<open>consume\<close>. Both arguments of \<^verbatim>\<open>upsert\<close> are built before the call, the \<^verbatim>\<open>update\<close> one
  first.
\<close>

definition consume ::
  "RateLimiter \<Rightarrow> env \<Rightarrow> rateLimitTable \<Rightarrow> string \<Rightarrow> (error + IRateLimitInfo) \<times> rateLimitTable" where
  "consume this e tbl identifier =
     (let key = generateKey identifier;
          tbl1 = cleanupExpired e tbl;
          now = clk_now e;
          newWindow =
            (case upsert (fail_write e) tbl1 key
                    \<lparr>count = 1, expiresAt = calculateResetTime this (clk_reset1 e)\<rparr>
                    \<lparr>count = 1, expiresAt = calculateResetTime this (clk_reset2 e)\<rparr> of
               Inl err \<Rightarrow> (Inl err, tbl1)
             | Inr (r', tbl2) \<Rightarrow> (Inr (infoOf this r'), tbl2))
      in case findUnique (fail_find e) tbl1 key of
           Inl err \<Rightarrow> (Inl err, tbl1)
         | Inr None \<Rightarrow> newWindow
         | Inr (Some r) \<Rightarrow>
             if expiresAt r < now then newWindow
             else if count r \<ge> maxRequests this
               then (Inl (RateLimitError (ceilSeconds (expiresAt r - now))), tbl1)
             else (case update_increment (fail_write e) tbl1 key of
                     Inl err \<Rightarrow> (Inl err, tbl1)
                   | Inr (r', tbl2) \<Rightarrow> (Inr (infoOf this r'), tbl2)))"

text \<open>\<^verbatim>\<open>reset\<close> (named \<open>resetKey\<close> here, \<open>reset\<close> being a field of \<^verbatim>\<open>IRateLimitInfo\<close>).\<close>

definition resetKey :: "env \<Rightarrow> rateLimitTable \<Rightarrow> string \<Rightarrow> (error + unit) \<times> rateLimitTable" where
  "resetKey e tbl identifier =
     (case deleteMany_key (fail_write e) tbl (generateKey identifier) of
        Inl err \<Rightarrow> (Inl err, tbl)
      | Inr tbl' \<Rightarrow> (Inr (), tbl'))"

section \<open>RateLimiterFactory\<close>

text \<open>
  The static \<^verbatim>\<open>instances\<close> map. A \<^verbatim>\<open>RateLimiter\<close> object is immutable and holds nothing
  but its configuration, so the map stores the limiter as a value. Each method tests
  \<^verbatim>\<open>has\<close>, stores a new limiter when the name is free, and returns what \<^verbatim>\<open>get\<close> then
  finds; it returns the limiter together with the map it leaves.
\<close>

type_synonym instances = "string \<rightharpoonup> RateLimiter"

definition createCustomLimiter ::
  "string \<Rightarrow> RateLimiter \<Rightarrow> instances \<Rightarrow> RateLimiter \<times> instances" where
  "createCustomLimiter name config insts =
     (case insts name of
        None \<Rightarrow> (config, insts(name \<mapsto> config))
      | Some l \<Rightarrow> (l, insts))"

definition getDefaultLimiter :: "instances \<Rightarrow> RateLimiter \<times> instances" where
  "getDefaultLimiter insts =
     (case insts ''default'' of
        None \<Rightarrow> (\<lparr>maxRequests = 100, windowMs = 15 * 60 * 1000\<rparr>,
                 insts(''default'' \<mapsto> \<lparr>maxRequests = 100, windowMs = 15 * 60 * 1000\<rparr>))
      | Some l \<Rightarrow> (l, insts))"

definition getAuthLimiter :: "instances \<Rightarrow> RateLimiter \<times> instances" where
  "getAuthLimiter insts =
     (case insts ''auth'' of
        None \<Rightarrow> (\<lparr>maxRequests = 20, windowMs = 15 * 60 * 1000\<rparr>,
                 insts(''auth'' \<mapsto> \<lparr>maxRequests = 20, windowMs = 15 * 60 * 1000\<rparr>))
      | Some l \<Rightarrow> (l, insts))"

definition getStrictLimiter :: "instances \<Rightarrow> RateLimiter \<times> instances" where
  "getStrictLimiter insts =
     (case insts ''strict'' of
        None \<Rightarrow> (\<lparr>maxRequests = 10, windowMs = 60 * 1000\<rparr>,
                 insts(''strict'' \<mapsto> \<lparr>maxRequests = 10, windowMs = 60 * 1000\<rparr>))
      | Some l \<Rightarrow> (l, insts))"

section \<open>Runs and conditions on a call\<close>

text \<open>
  The outcomes of consecutive \<^verbatim>\<open>consume\<close> calls for one identifier, each call with its own
  clock readings and storage behaviour, each on the table the previous call left.
\<close>

fun consumeMany ::
  "RateLimiter \<Rightarrow> env list \<Rightarrow> rateLimitTable \<Rightarrow> string \<Rightarrow> (error + IRateLimitInfo) list" where
  "consumeMany this [] tbl ident = []"
| "consumeMany this (e # es) tbl ident =
     fst (consume this e tbl ident) # consumeMany this es (snd (consume this e tbl ident)) ident"

text \<open>All clock readings of a call return the same instant \<open>t\<close>.\<close>

definition singleInstant :: "env \<Rightarrow> int \<Rightarrow> bool" where
  "singleInstant e t \<longleftrightarrow>
     clk_cleanup e = t \<and> clk_now e = t \<and> clk_reset1 e = t \<and> clk_reset2 e = t"

text \<open>
  A call that happens at one instant and whose read and write of the record succeed (the
  cleanup sweep may still fail).
\<close>

definition wellBehaved :: "env \<Rightarrow> bool" where
  "wellBehaved e \<longleftrightarrow> singleInstant e (clk_now e) \<and> \<not> fail_find e \<and> \<not> fail_write e"

text \<open>The call at instant \<open>t\<close> in which no storage operation fails.\<close>

definition callAt :: "int \<Rightarrow> env" where
  "callAt t =
     \<lparr>clk_cleanup = t, clk_now = t, clk_reset1 = t, clk_reset2 = t,
      fail_cleanup = False, fail_find = False, fail_write = False\<rparr>"

text \<open>The record for \<open>key\<close> is absent, or present with \<open>expiresAt < t\<close>.\<close>

definition absentOrExpired :: "rateLimitTable \<Rightarrow> string \<Rightarrow> int \<Rightarrow> bool" where
  "absentOrExpired tbl key t = (case tbl key of None \<Rightarrow> True | Some r \<Rightarrow> expiresAt r < t)"

text \<open>The rows of a table that are not expired at \<open>t\<close>.\<close>

definition liveView :: "int \<Rightarrow> rateLimitTable \<Rightarrow> rateLimitTable" where
  "liveView t tbl =
     (\<lambda>k. case tbl k of None \<Rightarrow> None | Some r \<Rightarrow> if expiresAt r < t then None else Some r)"

text \<open>
  The key as the specification words it, for comparison with \<open>generateKey\<close>:
  \<^verbatim>\<open>"rate_limit:" + namespace + ":" + identifier\<close>.
\<close>

definition namespacedKey :: "string \<Rightarrow> string \<Rightarrow> string" where
  "namespacedKey namespace identifier = ''rate_limit:'' @ namespace @ '':'' @ identifier"

text \<open>Calls of the static methods of \<^verbatim>\<open>RateLimiterFactory\<close>, and the map a run of them leaves.\<close>

datatype factoryCall =
  GetDefaultLimiter | GetAuthLimiter | GetStrictLimiter | CreateCustomLimiter string RateLimiter

fun factoryStep :: "factoryCall \<Rightarrow> instances \<Rightarrow> RateLimiter \<times> instances" where
  "factoryStep GetDefaultLimiter insts = getDefaultLimiter insts"
| "factoryStep GetAuthLimiter insts = getAuthLimiter insts"
| "factoryStep GetStrictLimiter insts = getStrictLimiter insts"
| "factoryStep (CreateCustomLimiter name config) insts = createCustomLimiter name config insts"

fun factoryRun :: "factoryCall list \<Rightarrow> instances \<Rightarrow> instances" where
  "factoryRun [] insts = insts"
| "factoryRun (c # cs) insts = factoryRun cs (snd (factoryStep c insts))"

text \<open>
  Calls of the three public methods of a limiter, and the table a sequence of calls
  leaves, whatever each call returns or throws.
\<close>

datatype limiterCall = Check env string | Consume env string | Reset env string

fun callStep :: "RateLimiter \<Rightarrow> limiterCall \<Rightarrow> rateLimitTable \<Rightarrow> rateLimitTable" where
  "callStep this (Check e ident) tbl = snd (check this e tbl ident)"
| "callStep this (Consume e ident) tbl = snd (consume this e tbl ident)"
| "callStep this (Reset e ident) tbl = snd (resetKey e tbl ident)"

fun callsRun :: "RateLimiter \<Rightarrow> limiterCall list \<Rightarrow> rateLimitTable \<Rightarrow> rateLimitTable" where
  "callsRun this [] tbl = tbl"
| "callsRun this (c # cs) tbl = callsRun this cs (callStep this c tbl)"

text \<open>Every stored record has a count of at most \<open>maxRequests\<close>.\<close>

definition countsWithinLimit :: "RateLimiter \<Rightarrow> rateLimitTable \<Rightarrow> bool" where
  "countsWithinLimit this tbl \<longleftrightarrow> (\<forall>k r. tbl k = Some r \<longrightarrow> count r \<le> maxRequests this)"



section \<open>Properties\<close>

subsection \<open>Auxiliary facts\<close>

lemma cleanupExpired_eq:
  "cleanupExpired e tbl = (if fail_cleanup e then tbl else liveView (clk_cleanup e) tbl)"
  by (simp add: cleanupExpired_def deleteMany_expired_def liveView_def)

lemma cleanupExpired_live:
  "tbl k = Some r \<Longrightarrow> \<not> expiresAt r < clk_cleanup e \<Longrightarrow> cleanupExpired e tbl k = Some r"
  by (simp add: cleanupExpired_eq liveView_def)

lemma cleanupExpired_absentOrExpired:
  "absentOrExpired tbl k t \<Longrightarrow> absentOrExpired (cleanupExpired e tbl) k t"
  by (auto simp add: cleanupExpired_eq liveView_def absentOrExpired_def split: option.splits)

lemma consume_newWindow:
  assumes "absentOrExpired (cleanupExpired e tbl) (generateKey ident) (clk_now e)"
    and "\<not> fail_find e" and "\<not> fail_write e" and "clk_reset1 e = clk_reset2 e"
  shows "consume this e tbl ident =
           (Inr (infoOf this \<lparr>count = 1, expiresAt = clk_reset2 e + windowMs this\<rparr>),
            (cleanupExpired e tbl)(generateKey ident \<mapsto> \<lparr>count = 1, expiresAt = clk_reset2 e + windowMs this\<rparr>))"
  using assms
  by (auto simp add: consume_def Let_def findUnique_def upsert_def absentOrExpired_def
        calculateResetTime_def split: option.splits)

lemma consume_reject:
  assumes "cleanupExpired e tbl (generateKey ident) = Some r"
    and "\<not> expiresAt r < clk_now e" and "maxRequests this \<le> count r" and "\<not> fail_find e"
  shows "consume this e tbl ident =
           (Inl (RateLimitError (ceilSeconds (expiresAt r - clk_now e))), cleanupExpired e tbl)"
  using assms by (simp add: consume_def Let_def findUnique_def)

lemma consume_increment:
  assumes "cleanupExpired e tbl (generateKey ident) = Some r"
    and "\<not> expiresAt r < clk_now e" and "count r < maxRequests this"
    and "\<not> fail_find e" and "\<not> fail_write e"
  shows "consume this e tbl ident =
           (Inr (infoOf this (r\<lparr>count := count r + 1\<rparr>)),
            (cleanupExpired e tbl)(generateKey ident \<mapsto> r\<lparr>count := count r + 1\<rparr>))"
  using assms by (simp add: consume_def Let_def findUnique_def update_increment_def)

lemma ceilSeconds_nonneg: "0 \<le> ms \<Longrightarrow> 0 \<le> ceilSeconds ms"
  unfolding ceilSeconds_def by linarith

lemma ceilSeconds_ceiling: "ceilSeconds ms = \<lceil>real_of_int ms / 1000\<rceil>"
proof -
  have "\<lfloor>real_of_int (- ms) / real_of_int 1000\<rfloor> = (- ms) div 1000"
    by (rule floor_divide_of_int_eq)
  then show ?thesis
    by (simp add: ceilSeconds_def ceiling_def)
qed

lemma wellBehaved_keeps_live:
  assumes "tbl k = Some r" and "wellBehaved e" and "clk_now e \<le> expiresAt r"
  shows "cleanupExpired e tbl k = Some r"
proof -
  from assms(2) have "clk_cleanup e = clk_now e"
    by (simp add: wellBehaved_def singleInstant_def)
  with assms(1,3) show ?thesis
    by (intro cleanupExpired_live) simp_all
qed

lemma consume_live_step:
  assumes "tbl (generateKey ident) = Some r" and "wellBehaved e" and "clk_now e \<le> expiresAt r"
  shows "consume this e tbl ident =
           (if count r < maxRequests this
            then (Inr (infoOf this (r\<lparr>count := count r + 1\<rparr>)),
                  (cleanupExpired e tbl)(generateKey ident \<mapsto> r\<lparr>count := count r + 1\<rparr>))
            else (Inl (RateLimitError (ceilSeconds (expiresAt r - clk_now e))), cleanupExpired e tbl))"
proof -
  from assms(2) have up: "\<not> fail_find e" "\<not> fail_write e"
    by (simp_all add: wellBehaved_def)
  have kept: "cleanupExpired e tbl (generateKey ident) = Some r"
    using assms by (rule wellBehaved_keeps_live)
  have live: "\<not> expiresAt r < clk_now e" using assms(3) by simp
  show ?thesis
  proof (cases "count r < maxRequests this")
    case True
    then show ?thesis using consume_increment[OF kept live True up] by simp
  next
    case False
    then have "maxRequests this \<le> count r" by simp
    from consume_reject[OF kept live this up(1)] False show ?thesis by simp
  qed
qed

lemma consumeMany_live:
  assumes "tbl (generateKey ident) = Some r"
    and "\<forall>e \<in> set es. wellBehaved e \<and> clk_now e \<le> expiresAt r"
    and "i < length es"
  shows "consumeMany this es tbl ident ! i =
           (if count r + int i < maxRequests this
            then Inr (infoOf this (r\<lparr>count := count r + int i + 1\<rparr>))
            else Inl (RateLimitError (ceilSeconds (expiresAt r - clk_now (es ! i)))))"
  using assms
proof (induction es arbitrary: tbl r i)
  case Nil
  then show ?case by simp
next
  case (Cons e es)
  from Cons.prems(2) have e: "wellBehaved e" "clk_now e \<le> expiresAt r" by simp_all
  note step = consume_live_step[where tbl=tbl and ident=ident and this=this, OF Cons.prems(1) e]
  show ?case
  proof (cases i)
    case 0
    then show ?thesis using step by simp
  next
    case (Suc j)
    with Cons.prems(3) have j: "j < length es" by simp
    show ?thesis
    proof (cases "count r < maxRequests this")
      case True
      let ?r' = "r\<lparr>count := count r + 1\<rparr>"
      have tbl': "snd (consume this e tbl ident) (generateKey ident) = Some ?r'"
        using step True by simp
      have rest: "\<forall>e \<in> set es. wellBehaved e \<and> clk_now e \<le> expiresAt ?r'"
        using Cons.prems(2) by simp
      from Cons.IH[where tbl="snd (consume this e tbl ident)", OF tbl' rest j] Suc show ?thesis
        by (simp add: add.commute add.left_commute)
    next
      case False
      have tbl': "snd (consume this e tbl ident) (generateKey ident) = Some r"
        using step False wellBehaved_keeps_live[where tbl=tbl, OF Cons.prems(1) e] by simp
      have rest: "\<forall>e \<in> set es. wellBehaved e \<and> clk_now e \<le> expiresAt r"
        using Cons.prems(2) by simp
      from Cons.IH[where tbl="snd (consume this e tbl ident)", OF tbl' rest j] Suc False show ?thesis
        by simp
    qed
  qed
qed

lemma consume_fresh_window:
  assumes "0 < maxRequests this"
    and "singleInstant e now"
    and "\<not> fail_find e" and "\<not> fail_write e"
    and "absentOrExpired tbl (generateKey ident) now"
  shows "consume this e tbl ident =
           (Inr \<lparr>limit = maxRequests this, remaining = maxRequests this - 1,
                 reset = ceilSeconds (now + windowMs this)\<rparr>,
            (cleanupExpired e tbl)(generateKey ident \<mapsto> \<lparr>count = 1, expiresAt = now + windowMs this\<rparr>))"
proof -
  from assms(2) have clk: "clk_now e = now" "clk_reset1 e = clk_reset2 e" "clk_reset2 e = now"
    by (simp_all add: singleInstant_def)
  have "absentOrExpired (cleanupExpired e tbl) (generateKey ident) (clk_now e)"
    using assms(5) clk(1) by (simp add: cleanupExpired_absentOrExpired)
  then have "consume this e tbl ident =
           (Inr (infoOf this \<lparr>count = 1, expiresAt = clk_reset2 e + windowMs this\<rparr>),
            (cleanupExpired e tbl)(generateKey ident \<mapsto> \<lparr>count = 1, expiresAt = clk_reset2 e + windowMs this\<rparr>))"
    using assms(3,4) clk(2) by (rule consume_newWindow)
  then show ?thesis
    using assms(1) clk(3) by (simp add: infoOf_def)
qed

lemma wellBehaved_callAt: "wellBehaved (callAt t)"
  by (simp add: wellBehaved_def singleInstant_def callAt_def)

lemma singleInstant_callAt: "singleInstant (callAt t) t"
  by (simp add: singleInstant_def callAt_def)

lemma clk_now_callAt: "clk_now (callAt t) = t"
  by (simp add: callAt_def)

subsection \<open>The quota of one window\<close>

text \<open>
  Claim C1. Let the limiter have \<open>maxRequests = N > 0\<close> and \<open>windowMs = W\<close>, let the table
  hold no record for the key of the identifier, and let \<open>N + 1\<close> calls of \<^verbatim>\<open>consume\<close> for
  that identifier follow one another, each at one instant no later than \<open>W\<close> milliseconds
  after the first, with the record's read and write succeeding. Then call number \<open>i\<close>
  (counted from 0) succeeds for every \<open>i < N\<close> and returns \<open>remaining = N - 1 - i\<close>, so the
  values run from \<open>N - 1\<close> down to \<open>0\<close>, and the call after them throws
  \<^verbatim>\<open>RateLimitError\<close>.
\<close>

theorem first_N_consumes:
  assumes "0 < maxRequests this"
    and "tbl (generateKey ident) = None"
    and "length es = nat (maxRequests this) + 1"
    and "\<forall>e \<in> set es. wellBehaved e \<and> clk_now e \<le> clk_now (hd es) + windowMs this"
  shows "(\<forall>i < nat (maxRequests this).
            consumeMany this es tbl ident ! i =
              Inr \<lparr>limit = maxRequests this,
                   remaining = maxRequests this - 1 - int i,
                   reset = ceilSeconds (clk_now (hd es) + windowMs this)\<rparr>)
       \<and> consumeMany this es tbl ident ! nat (maxRequests this) =
           Inl (RateLimitError (ceilSeconds
                  (clk_now (hd es) + windowMs this - clk_now (es ! nat (maxRequests this)))))"
proof -
  from assms(3) obtain e0 rest where es: "es = e0 # rest"
    by (cases es) simp_all
  let ?r0 = "\<lparr>count = 1, expiresAt = clk_now e0 + windowMs this\<rparr>"
  let ?tbl1 = "snd (consume this e0 tbl ident)"
  from assms(4) es have e0: "wellBehaved e0" by simp
  then have inst: "singleInstant e0 (clk_now e0)" and up: "\<not> fail_find e0" "\<not> fail_write e0"
    by (simp_all add: wellBehaved_def)
  have abs: "absentOrExpired tbl (generateKey ident) (clk_now e0)"
    using assms(2) by (simp add: absentOrExpired_def)
  note first = consume_fresh_window[OF assms(1) inst up abs]
  have tbl1: "?tbl1 (generateKey ident) = Some ?r0"
    using first by simp
  have restOk: "\<forall>e \<in> set rest. wellBehaved e \<and> clk_now e \<le> expiresAt ?r0"
    using assms(4) es by simp
  have len: "length rest = nat (maxRequests this)"
    using assms(3) es by simp
  have later: "consumeMany this rest ?tbl1 ident ! j =
           (if 1 + int j < maxRequests this
            then Inr (infoOf this (?r0\<lparr>count := 1 + int j + 1\<rparr>))
            else Inl (RateLimitError (ceilSeconds (expiresAt ?r0 - clk_now (rest ! j)))))"
    if "j < length rest" for j
    using consumeMany_live[where tbl="?tbl1" and ident=ident and this=this, OF tbl1 restOk that] by simp
  have succ: "consumeMany this es tbl ident ! i =
              Inr \<lparr>limit = maxRequests this,
                   remaining = maxRequests this - 1 - int i,
                   reset = ceilSeconds (clk_now (hd es) + windowMs this)\<rparr>"
    if "i < nat (maxRequests this)" for i
  proof (cases i)
    case 0
    then show ?thesis using first es by simp
  next
    case (Suc j)
    with that len have j: "j < length rest" by simp
    from that Suc have "1 + int j < maxRequests this" by linarith
    with later[OF j] Suc es show ?thesis
      by (simp add: infoOf_def)
  qed
  have fail: "consumeMany this es tbl ident ! nat (maxRequests this) =
           Inl (RateLimitError (ceilSeconds
                  (clk_now (hd es) + windowMs this - clk_now (es ! nat (maxRequests this)))))"
  proof -
    from assms(1) obtain j where j: "nat (maxRequests this) = Suc j"
      by (cases "nat (maxRequests this)") simp_all
    with len have jl: "j < length rest" by simp
    from j have "\<not> 1 + int j < maxRequests this" by linarith
    with later[OF jl] j es show ?thesis by simp
  qed
  from succ fail show ?thesis by blast
qed

theorem first_N_consumes_witness:
  "consumeMany \<lparr>maxRequests = 3, windowMs = 1000\<rparr>
      [callAt 5000, callAt 5300, callAt 5999, callAt 6000] Map.empty ''a'' ! 0
     = Inr \<lparr>limit = 3, remaining = 2, reset = 6\<rparr>
   \<and> consumeMany \<lparr>maxRequests = 3, windowMs = 1000\<rparr>
      [callAt 5000, callAt 5300, callAt 5999, callAt 6000] Map.empty ''a'' ! 1
     = Inr \<lparr>limit = 3, remaining = 1, reset = 6\<rparr>
   \<and> consumeMany \<lparr>maxRequests = 3, windowMs = 1000\<rparr>
      [callAt 5000, callAt 5300, callAt 5999, callAt 6000] Map.empty ''a'' ! 2
     = Inr \<lparr>limit = 3, remaining = 0, reset = 6\<rparr>
   \<and> consumeMany \<lparr>maxRequests = 3, windowMs = 1000\<rparr>
      [callAt 5000, callAt 5300, callAt 5999, callAt 6000] Map.empty ''a'' ! 3
     = Inl (RateLimitError 0)"
proof -
  let ?L = "\<lparr>maxRequests = 3, windowMs = 1000\<rparr>"
  let ?es = "[callAt 5000, callAt 5300, callAt 5999, callAt 6000]"
  have h1: "0 < maxRequests ?L" by simp
  have h2: "Map.empty (generateKey ''a'') = (None :: RateLimitRecord option)" by simp
  have h3: "length ?es = nat (maxRequests ?L) + 1" by simp
  have h4: "\<forall>e \<in> set ?es. wellBehaved e \<and> clk_now e \<le> clk_now (hd ?es) + windowMs ?L"
    by (simp add: wellBehaved_callAt clk_now_callAt)
  have three: "nat (maxRequests ?L) = Suc (Suc (Suc 0))" by simp
  from first_N_consumes[OF h1 h2 h3 h4] show ?thesis
    unfolding three All_less_Suc
    by (simp add: clk_now_callAt ceilSeconds_def)
qed

subsection \<open>Rejection at the limit\<close>

text \<open>
  Claim C2. Let the record for the key be present with \<open>count \<ge> maxRequests\<close> and not
  expired at the instant \<open>now\<close> that \<^verbatim>\<open>consume\<close> reads (\<open>now \<le> expiresAt\<close>, the sweep's
  earlier clock reading being no later than \<open>now\<close>), and let \<^verbatim>\<open>findUnique\<close> succeed. Then
  \<^verbatim>\<open>consume\<close> throws \<^verbatim>\<open>RateLimitError\<close> with
  \<open>retryAfter = \<lceil>(expiresAt - now) / 1000\<rceil>\<close>, this value is at least \<open>0\<close>, and the table
  still holds the same record for the key afterwards.
\<close>

theorem consume_rejects_at_limit:
  assumes "tbl (generateKey ident) = Some r"
    and "clk_cleanup e \<le> clk_now e"
    and "clk_now e \<le> expiresAt r"
    and "maxRequests this \<le> count r"
    and "\<not> fail_find e"
  shows "fst (consume this e tbl ident) = Inl (RateLimitError (ceilSeconds (expiresAt r - clk_now e)))
       \<and> ceilSeconds (expiresAt r - clk_now e) = \<lceil>real_of_int (expiresAt r - clk_now e) / 1000\<rceil>
       \<and> 0 \<le> ceilSeconds (expiresAt r - clk_now e)
       \<and> snd (consume this e tbl ident) (generateKey ident) = Some r"
proof -
  from assms have kept: "cleanupExpired e tbl (generateKey ident) = Some r"
    by (intro cleanupExpired_live) simp_all
  from assms have live: "\<not> expiresAt r < clk_now e" by simp
  have "consume this e tbl ident =
          (Inl (RateLimitError (ceilSeconds (expiresAt r - clk_now e))), cleanupExpired e tbl)"
    using kept live assms(4,5) by (rule consume_reject)
  moreover have "0 \<le> ceilSeconds (expiresAt r - clk_now e)"
    using assms(3) by (intro ceilSeconds_nonneg) simp
  ultimately show ?thesis
    using kept by (simp add: ceilSeconds_ceiling)
qed

theorem consume_rejects_at_limit_witness:
  "fst (consume \<lparr>maxRequests = 3, windowMs = 1000\<rparr>
          \<lparr>clk_cleanup = 5400, clk_now = 5401, clk_reset1 = 5401, clk_reset2 = 5402,
           fail_cleanup = False, fail_find = False, fail_write = True\<rparr>
          [''rate_limit:a'' \<mapsto> \<lparr>count = 3, expiresAt = 6000\<rparr>] ''a'')
     = Inl (RateLimitError 1)
   \<and> snd (consume \<lparr>maxRequests = 3, windowMs = 1000\<rparr>
          \<lparr>clk_cleanup = 5400, clk_now = 5401, clk_reset1 = 5401, clk_reset2 = 5402,
           fail_cleanup = False, fail_find = False, fail_write = True\<rparr>
          [''rate_limit:a'' \<mapsto> \<lparr>count = 3, expiresAt = 6000\<rparr>] ''a'') ''rate_limit:a''
     = Some \<lparr>count = 3, expiresAt = 6000\<rparr>"
  using consume_rejects_at_limit
    [of "[''rate_limit:a'' \<mapsto> \<lparr>count = 3, expiresAt = 6000\<rparr>]" "''a''"
        "\<lparr>count = 3, expiresAt = 6000\<rparr>"
        "\<lparr>clk_cleanup = 5400, clk_now = 5401, clk_reset1 = 5401, clk_reset2 = 5402,
           fail_cleanup = False, fail_find = False, fail_write = True\<rparr>"
        "\<lparr>maxRequests = 3, windowMs = 1000\<rparr>"]
  by (simp add: generateKey_def ceilSeconds_def)

subsection \<open>Starting a new window\<close>

text \<open>
  Claim C3. Let \<open>maxRequests > 0\<close>, let the call happen at the instant \<open>now\<close> with the
  record's read and write succeeding, and let the record for the key be absent or
  present with \<open>expiresAt < now\<close>, whatever its count (so however many calls were accepted
  or rejected in the window that has passed). Then \<^verbatim>\<open>consume\<close> succeeds, returns
  \<open>remaining = maxRequests - 1\<close>, and leaves the record
  \<open>{count: 1, expiresAt: now + windowMs}\<close> under the key.
\<close>

theorem consume_absent_or_expired:
  assumes "0 < maxRequests this"
    and "singleInstant e now"
    and "\<not> fail_find e" and "\<not> fail_write e"
    and "absentOrExpired tbl (generateKey ident) now"
  shows "fst (consume this e tbl ident) =
           Inr \<lparr>limit = maxRequests this, remaining = maxRequests this - 1,
                reset = ceilSeconds (now + windowMs this)\<rparr>
       \<and> snd (consume this e tbl ident) (generateKey ident) =
           Some \<lparr>count = 1, expiresAt = now + windowMs this\<rparr>"
  using consume_fresh_window[OF assms] by simp

theorem consume_absent_or_expired_witness:
  "fst (consume \<lparr>maxRequests = 3, windowMs = 1000\<rparr> (callAt 6001)
          [''rate_limit:a'' \<mapsto> \<lparr>count = 3, expiresAt = 6000\<rparr>] ''a'')
     = Inr \<lparr>limit = 3, remaining = 2, reset = 8\<rparr>
   \<and> snd (consume \<lparr>maxRequests = 3, windowMs = 1000\<rparr> (callAt 6001)
          [''rate_limit:a'' \<mapsto> \<lparr>count = 3, expiresAt = 6000\<rparr>] ''a'') ''rate_limit:a''
     = Some \<lparr>count = 1, expiresAt = 7001\<rparr>"
proof -
  let ?L = "\<lparr>maxRequests = 3, windowMs = 1000\<rparr>"
  let ?tbl = "[''rate_limit:a'' \<mapsto> \<lparr>count = 3, expiresAt = 6000\<rparr>]"
  have h1: "0 < maxRequests ?L" by simp
  have h3: "\<not> fail_find (callAt 6001)" and h4: "\<not> fail_write (callAt 6001)"
    by (simp_all add: callAt_def)
  have h5: "absentOrExpired ?tbl (generateKey ''a'') 6001"
    by (simp add: absentOrExpired_def generateKey_def)
  from consume_absent_or_expired[OF h1 singleInstant_callAt h3 h4 h5] show ?thesis
    by (simp add: generateKey_def ceilSeconds_def)
qed

subsection \<open>The storage key and the factory\<close>

lemma check_table: "snd (check this e tbl ident) = cleanupExpired e tbl"
  by (simp add: check_def Let_def findUnique_def split: option.splits)

lemma consume_other_keys:
  "k \<noteq> generateKey ident \<Longrightarrow> snd (consume this e tbl ident) k = cleanupExpired e tbl k"
  by (simp add: consume_def Let_def findUnique_def upsert_def update_increment_def
        split: option.splits)

lemma factoryStep_keeps:
  "insts name = Some l \<Longrightarrow> snd (factoryStep c insts) name = Some l"
  by (cases c)
     (auto simp add: getDefaultLimiter_def getAuthLimiter_def getStrictLimiter_def
        createCustomLimiter_def split: option.splits)

lemma factoryRun_keeps:
  "insts name = Some l \<Longrightarrow> factoryRun calls insts name = Some l"
proof (induction calls arbitrary: insts)
  case Nil
  then show ?case by simp
next
  case (Cons c cs)
  from Cons.prems have "snd (factoryStep c insts) name = Some l"
    by (rule factoryStep_keeps)
  then show ?case
    using Cons.IH by simp
qed

text \<open>
  Claim C4, as stated, fails. The key has no namespace part: it differs from
  \<open>namespacedKey\<close> (here for the namespace \<open>auth\<close>), and a request consumed through the
  strict limiter (10 per minute) is counted against the auth limiter (20 per 15 minutes)
  for the same identifier on the same table.
\<close>

theorem generateKey_namespace_counterexample:
  "generateKey ''10.0.0.1'' \<noteq> namespacedKey ''auth'' ''10.0.0.1''
   \<and> fst (check \<lparr>maxRequests = 20, windowMs = 900000\<rparr> (callAt 1)
            (snd (consume \<lparr>maxRequests = 10, windowMs = 60000\<rparr> (callAt 0) Map.empty ''10.0.0.1''))
            ''10.0.0.1'')
       = Inr \<lparr>limit = 20, remaining = 19, reset = 60\<rparr>"
  by (simp add: generateKey_def namespacedKey_def check_def consume_def Let_def callAt_def
        cleanupExpired_def deleteMany_expired_def findUnique_def upsert_def infoOf_def
        calculateResetTime_def ceilSeconds_def)

text \<open>
  Claim C4, amended. For every identifier the key is \<^verbatim>\<open>"rate_limit:" + identifier\<close>, whatever
  limiter the call goes through; different identifiers give different keys. \<^verbatim>\<open>reset\<close>
  deletes the record under exactly this key, \<^verbatim>\<open>consume\<close> changes no other record than
  the sweep does, and the outcomes of \<^verbatim>\<open>check\<close> and \<^verbatim>\<open>consume\<close> depend on the table only
  through the record the sweep leaves under this key.
\<close>

theorem generateKey_is_prefix_identifier:
  "generateKey ident = ''rate_limit:'' @ ident
   \<and> (generateKey ident = generateKey ident' \<longleftrightarrow> ident = ident')
   \<and> (\<not> fail_write e \<longrightarrow> snd (resetKey e tbl ident) = tbl(''rate_limit:'' @ ident := None))
   \<and> (k \<noteq> ''rate_limit:'' @ ident \<longrightarrow> snd (consume this e tbl ident) k = cleanupExpired e tbl k)
   \<and> (cleanupExpired e tbl (''rate_limit:'' @ ident) = cleanupExpired e tbl' (''rate_limit:'' @ ident)
        \<longrightarrow> fst (check this e tbl ident) = fst (check this e tbl' ident)
          \<and> fst (consume this e tbl ident) = fst (consume this e tbl' ident))"
proof -
  have key: "generateKey ident = ''rate_limit:'' @ ident"
    by (simp add: generateKey_def)
  have inj: "generateKey ident = generateKey ident' \<longleftrightarrow> ident = ident'"
    by (simp add: generateKey_def)
  have del: "\<not> fail_write e \<longrightarrow> snd (resetKey e tbl ident) = tbl(''rate_limit:'' @ ident := None)"
    by (simp add: resetKey_def deleteMany_key_def generateKey_def)
  have frame: "k \<noteq> ''rate_limit:'' @ ident \<longrightarrow>
                 snd (consume this e tbl ident) k = cleanupExpired e tbl k"
    using consume_other_keys[of k ident this e tbl] key by simp
  have dep: "cleanupExpired e tbl (''rate_limit:'' @ ident) = cleanupExpired e tbl' (''rate_limit:'' @ ident)
        \<longrightarrow> fst (check this e tbl ident) = fst (check this e tbl' ident)
          \<and> fst (consume this e tbl ident) = fst (consume this e tbl' ident)"
    by (auto simp add: check_def consume_def Let_def findUnique_def upsert_def
          update_increment_def generateKey_def split: option.splits)
  from key inj del frame dep show ?thesis by blast
qed

theorem generateKey_is_prefix_identifier_witness:
  "generateKey ''login:10.0.0.1'' = ''rate_limit:login:10.0.0.1''
   \<and> snd (resetKey (callAt 7) [''rate_limit:login:10.0.0.1'' \<mapsto> \<lparr>count = 2, expiresAt = 9\<rparr>]
            ''login:10.0.0.1'') = Map.empty
   \<and> snd (consume \<lparr>maxRequests = 20, windowMs = 900000\<rparr> (callAt 7)
            [''rate_limit:me:10.0.0.1'' \<mapsto> \<lparr>count = 2, expiresAt = 9\<rparr>] ''login:10.0.0.1'')
        ''rate_limit:me:10.0.0.1'' = Some \<lparr>count = 2, expiresAt = 9\<rparr>"
  using generateKey_is_prefix_identifier
          [of "''login:10.0.0.1''" "''me:10.0.0.1''" "callAt 7"
              "[''rate_limit:login:10.0.0.1'' \<mapsto> \<lparr>count = 2, expiresAt = 9\<rparr>]"
              "''rate_limit:me:10.0.0.1''" "\<lparr>maxRequests = 20, windowMs = 900000\<rparr>"
              "[''rate_limit:login:10.0.0.1'' \<mapsto> \<lparr>count = 2, expiresAt = 9\<rparr>]"]
        generateKey_is_prefix_identifier
          [of "''login:10.0.0.1''" "''me:10.0.0.1''" "callAt 7"
              "[''rate_limit:me:10.0.0.1'' \<mapsto> \<lparr>count = 2, expiresAt = 9\<rparr>]"
              "''rate_limit:me:10.0.0.1''" "\<lparr>maxRequests = 20, windowMs = 900000\<rparr>"
              "[''rate_limit:me:10.0.0.1'' \<mapsto> \<lparr>count = 2, expiresAt = 9\<rparr>]"]
  by (simp add: callAt_def cleanupExpired_def deleteMany_expired_def)

text \<open>
  Claim C10. Once a name is registered in the factory's map, whichever method registered
  it, then after any further calls of the factory's methods \<^verbatim>\<open>createCustomLimiter\<close> with
  that name returns the limiter registered first and leaves the map as it is: the
  configuration passed to it is not used.
\<close>

theorem createCustomLimiter_returns_registered:
  assumes "insts name = Some l"
  shows "createCustomLimiter name config (factoryRun calls insts) = (l, factoryRun calls insts)"
proof -
  from assms have "factoryRun calls insts name = Some l"
    by (rule factoryRun_keeps)
  then show ?thesis
    by (simp add: createCustomLimiter_def)
qed

theorem createCustomLimiter_returns_registered_witness:
  "fst (createCustomLimiter ''auth'' \<lparr>maxRequests = 5, windowMs = 1000\<rparr>
     (factoryRun [GetDefaultLimiter, CreateCustomLimiter ''auth'' \<lparr>maxRequests = 7, windowMs = 10\<rparr>]
        (snd (getAuthLimiter Map.empty))))
   = \<lparr>maxRequests = 20, windowMs = 900000\<rparr>"
proof -
  have reg: "snd (getAuthLimiter Map.empty) ''auth'' = Some \<lparr>maxRequests = 20, windowMs = 900000\<rparr>"
    by (simp add: getAuthLimiter_def)
  from createCustomLimiter_returns_registered
         [where insts = "snd (getAuthLimiter Map.empty)" and name = "''auth''"
            and config = "\<lparr>maxRequests = 5, windowMs = 1000\<rparr>"
            and calls = "[GetDefaultLimiter,
                          CreateCustomLimiter ''auth'' \<lparr>maxRequests = 7, windowMs = 10\<rparr>]",
          OF reg]
  show ?thesis by simp
qed

subsection \<open>check on a fresh key, and reset\<close>

lemma cleanupExpired_dom: "dom (cleanupExpired e tbl) \<subseteq> dom tbl"
  by (auto simp add: cleanupExpired_eq liveView_def split: option.splits if_splits)

lemma absentOrExpired_mono:
  "absentOrExpired tbl k t \<Longrightarrow> t \<le> t' \<Longrightarrow> absentOrExpired tbl k t'"
  by (auto simp add: absentOrExpired_def split: option.splits)

lemma check_hypothetical:
  assumes "absentOrExpired (cleanupExpired e tbl) (generateKey ident) (clk_now e)"
    and "\<not> fail_find e"
  shows "fst (check this e tbl ident) =
           Inr \<lparr>limit = maxRequests this, remaining = maxRequests this,
                reset = ceilSeconds (clk_reset1 e + windowMs this)\<rparr>"
  using assms
  by (auto simp add: check_def Let_def findUnique_def absentOrExpired_def calculateResetTime_def
        split: option.splits)

lemma resetKey_ok:
  "\<not> fail_write e \<Longrightarrow> resetKey e tbl ident = (Inr (), tbl(generateKey ident := None))"
  by (simp add: resetKey_def deleteMany_key_def)

lemma resetKey_table_cases:
  "snd (resetKey e tbl ident) = (if fail_write e then tbl else tbl(generateKey ident := None))"
  by (simp add: resetKey_def deleteMany_key_def)

text \<open>
  Claim C8. Let \<open>maxRequests > 0\<close>, let \<^verbatim>\<open>check\<close> be called at the instant \<open>now\<close> with
  \<^verbatim>\<open>findUnique\<close> succeeding, and let the record for the key be absent or expired at
  \<open>now\<close>. Then \<^verbatim>\<open>check\<close> returns \<open>{limit: maxRequests, remaining: maxRequests, reset:
  \<lceil>(now + windowMs) / 1000\<rceil>}\<close>; the table it leaves has no key that the table did not
  have before, and no record under the key if there was none; and a \<^verbatim>\<open>consume\<close> for the same
  identifier that follows, at an instant not before \<open>now\<close> and with its read and write
  succeeding, returns \<open>remaining = maxRequests - 1\<close>.
\<close>

theorem check_absent_or_expired:
  assumes "0 < maxRequests this"
    and "singleInstant e now" and "\<not> fail_find e"
    and "absentOrExpired tbl (generateKey ident) now"
    and "wellBehaved e'" and "now \<le> clk_now e'"
  shows "fst (check this e tbl ident) =
           Inr \<lparr>limit = maxRequests this, remaining = maxRequests this,
                reset = ceilSeconds (now + windowMs this)\<rparr>
       \<and> ceilSeconds (now + windowMs this) = \<lceil>real_of_int (now + windowMs this) / 1000\<rceil>
       \<and> dom (snd (check this e tbl ident)) \<subseteq> dom tbl
       \<and> (tbl (generateKey ident) = None \<longrightarrow> snd (check this e tbl ident) (generateKey ident) = None)
       \<and> fst (consume this e' (snd (check this e tbl ident)) ident) =
           Inr \<lparr>limit = maxRequests this, remaining = maxRequests this - 1,
                reset = ceilSeconds (clk_now e' + windowMs this)\<rparr>"
proof -
  from assms(2) have clk: "clk_now e = now" "clk_reset1 e = now"
    by (simp_all add: singleInstant_def)
  have swept: "absentOrExpired (cleanupExpired e tbl) (generateKey ident) now"
    using assms(4) by (rule cleanupExpired_absentOrExpired)
  then have "absentOrExpired (cleanupExpired e tbl) (generateKey ident) (clk_now e)"
    using clk(1) by simp
  from check_hypothetical[OF this assms(3), of this] clk(2)
  have result: "fst (check this e tbl ident) =
           Inr \<lparr>limit = maxRequests this, remaining = maxRequests this,
                reset = ceilSeconds (now + windowMs this)\<rparr>"
    by simp
  have no_row: "dom (snd (check this e tbl ident)) \<subseteq> dom tbl"
    by (simp add: check_table cleanupExpired_dom)
  have still_absent: "tbl (generateKey ident) = None \<longrightarrow>
                        snd (check this e tbl ident) (generateKey ident) = None"
    using no_row by (auto simp add: domIff)
  from assms(5) have inst: "singleInstant e' (clk_now e')"
    and up: "\<not> fail_find e'" "\<not> fail_write e'"
    by (simp_all add: wellBehaved_def)
  have "absentOrExpired (snd (check this e tbl ident)) (generateKey ident) (clk_now e')"
    using swept assms(6) by (simp add: check_table absentOrExpired_mono)
  from consume_fresh_window[OF assms(1) inst up this]
  have next_consume: "fst (consume this e' (snd (check this e tbl ident)) ident) =
           Inr \<lparr>limit = maxRequests this, remaining = maxRequests this - 1,
                reset = ceilSeconds (clk_now e' + windowMs this)\<rparr>"
    by simp
  from result no_row still_absent next_consume show ?thesis
    by (simp add: ceilSeconds_ceiling)
qed

theorem check_absent_or_expired_witness:
  "fst (check \<lparr>maxRequests = 3, windowMs = 1000\<rparr> (callAt 5000) Map.empty ''b'')
     = Inr \<lparr>limit = 3, remaining = 3, reset = 6\<rparr>
   \<and> snd (check \<lparr>maxRequests = 3, windowMs = 1000\<rparr> (callAt 5000) Map.empty ''b'') (generateKey ''b'')
     = None
   \<and> fst (consume \<lparr>maxRequests = 3, windowMs = 1000\<rparr> (callAt 5001)
            (snd (check \<lparr>maxRequests = 3, windowMs = 1000\<rparr> (callAt 5000) Map.empty ''b'')) ''b'')
     = Inr \<lparr>limit = 3, remaining = 2, reset = 7\<rparr>"
proof -
  let ?L = "\<lparr>maxRequests = 3, windowMs = 1000\<rparr>"
  have h1: "0 < maxRequests ?L" by simp
  have h3: "\<not> fail_find (callAt 5000)" by (simp add: callAt_def)
  have h4: "absentOrExpired Map.empty (generateKey ''b'') 5000"
    by (simp add: absentOrExpired_def)
  have h6: "5000 \<le> clk_now (callAt 5001)" by (simp add: callAt_def)
  from check_absent_or_expired[OF h1 singleInstant_callAt h3 h4 wellBehaved_callAt h6]
  show ?thesis
    by (simp add: ceilSeconds_def check_table cleanupExpired_eq liveView_def callAt_def)
qed

text \<open>
  Claim C9. Let the delete of \<^verbatim>\<open>reset\<close> succeed. Then \<^verbatim>\<open>reset\<close> returns without error and
  leaves the table without a record under the key of the identifier, all other records
  as they were; if there was no record it leaves the table as it was. A second \<^verbatim>\<open>reset\<close>
  for the identifier leaves the table the first one left. With \<open>maxRequests > 0\<close>, a
  \<^verbatim>\<open>consume\<close> for the identifier that follows (at one instant, its read and write
  succeeding) does what it does on a table without the record: it succeeds with
  \<open>remaining = maxRequests - 1\<close>.
\<close>

theorem reset_deletes_record:
  assumes "\<not> fail_write e" and "0 < maxRequests this" and "wellBehaved e'"
  shows "resetKey e tbl ident = (Inr (), tbl(generateKey ident := None))
       \<and> (tbl (generateKey ident) = None \<longrightarrow> resetKey e tbl ident = (Inr (), tbl))
       \<and> snd (resetKey e2 (snd (resetKey e tbl ident)) ident) = snd (resetKey e tbl ident)
       \<and> fst (consume this e' (snd (resetKey e tbl ident)) ident) =
           Inr \<lparr>limit = maxRequests this, remaining = maxRequests this - 1,
                reset = ceilSeconds (clk_now e' + windowMs this)\<rparr>
       \<and> snd (consume this e' (snd (resetKey e tbl ident)) ident) (generateKey ident) =
           Some \<lparr>count = 1, expiresAt = clk_now e' + windowMs this\<rparr>"
proof -
  have deleted: "resetKey e tbl ident = (Inr (), tbl(generateKey ident := None))"
    using assms(1) by (rule resetKey_ok)
  have absent: "tbl (generateKey ident) = None \<longrightarrow> resetKey e tbl ident = (Inr (), tbl)"
  proof
    assume "tbl (generateKey ident) = None"
    then have "tbl(generateKey ident := None) = tbl" by (simp add: fun_upd_idem)
    with deleted show "resetKey e tbl ident = (Inr (), tbl)" by simp
  qed
  have idem: "snd (resetKey e2 (snd (resetKey e tbl ident)) ident) = snd (resetKey e tbl ident)"
    using deleted by (simp add: resetKey_table_cases)
  from assms(3) have inst: "singleInstant e' (clk_now e')"
    and up: "\<not> fail_find e'" "\<not> fail_write e'"
    by (simp_all add: wellBehaved_def)
  have "absentOrExpired (snd (resetKey e tbl ident)) (generateKey ident) (clk_now e')"
    using deleted by (simp add: absentOrExpired_def)
  note fresh = consume_fresh_window[OF assms(2) inst up this]
  from deleted absent idem fresh show ?thesis
    by simp
qed

theorem reset_deletes_record_witness:
  "resetKey (callAt 5500) [''rate_limit:a'' \<mapsto> \<lparr>count = 3, expiresAt = 6000\<rparr>] ''a''
     = (Inr (), Map.empty)
   \<and> fst (consume \<lparr>maxRequests = 3, windowMs = 1000\<rparr> (callAt 5600)
            (snd (resetKey (callAt 5500) [''rate_limit:a'' \<mapsto> \<lparr>count = 3, expiresAt = 6000\<rparr>] ''a''))
            ''a'')
     = Inr \<lparr>limit = 3, remaining = 2, reset = 7\<rparr>"
proof -
  let ?L = "\<lparr>maxRequests = 3, windowMs = 1000\<rparr>"
  have h1: "\<not> fail_write (callAt 5500)" by (simp add: callAt_def)
  have h2: "0 < maxRequests ?L" by simp
  from reset_deletes_record[OF h1 h2 wellBehaved_callAt,
         of "[''rate_limit:a'' \<mapsto> \<lparr>count = 3, expiresAt = 6000\<rparr>]" "''a''" "callAt 0" 5600]
  show ?thesis
    by (simp add: generateKey_def ceilSeconds_def resetKey_def deleteMany_key_def callAt_def)
qed

subsection \<open>The count never exceeds the limit\<close>

lemma cleanupExpired_within:
  "countsWithinLimit this tbl \<Longrightarrow> countsWithinLimit this (cleanupExpired e tbl)"
  by (auto simp add: countsWithinLimit_def cleanupExpired_eq liveView_def
        split: option.splits if_splits)

lemma consume_key_cases:
  "snd (consume this e tbl ident) (generateKey ident) = cleanupExpired e tbl (generateKey ident)
   \<or> snd (consume this e tbl ident) (generateKey ident) =
        Some \<lparr>count = 1, expiresAt = clk_reset1 e + windowMs this\<rparr>
   \<or> snd (consume this e tbl ident) (generateKey ident) =
        Some \<lparr>count = 1, expiresAt = clk_reset2 e + windowMs this\<rparr>
   \<or> (\<exists>r. cleanupExpired e tbl (generateKey ident) = Some r \<and> count r < maxRequests this
          \<and> snd (consume this e tbl ident) (generateKey ident) = Some (r\<lparr>count := count r + 1\<rparr>))"
  by (auto simp add: consume_def Let_def findUnique_def upsert_def update_increment_def
        calculateResetTime_def split: option.splits)

lemma consume_within:
  assumes "0 < maxRequests this" and "countsWithinLimit this tbl"
  shows "countsWithinLimit this (snd (consume this e tbl ident))"
  unfolding countsWithinLimit_def
proof (intro allI impI)
  fix k r
  assume stored: "snd (consume this e tbl ident) k = Some r"
  have swept: "countsWithinLimit this (cleanupExpired e tbl)"
    using assms(2) by (rule cleanupExpired_within)
  show "count r \<le> maxRequests this"
  proof (cases "k = generateKey ident")
    case False
    then have "cleanupExpired e tbl k = Some r"
      using stored consume_other_keys[of k ident this e tbl] by simp
    with swept show ?thesis by (simp add: countsWithinLimit_def)
  next
    case True
    with stored consume_key_cases[of this e tbl ident] swept assms(1)
    show ?thesis
      by (auto simp add: countsWithinLimit_def)
  qed
qed

lemma resetKey_within:
  "countsWithinLimit this tbl \<Longrightarrow> countsWithinLimit this (snd (resetKey e tbl ident))"
  by (auto simp add: countsWithinLimit_def resetKey_table_cases split: if_splits)

lemma callStep_within:
  assumes "0 < maxRequests this" and "countsWithinLimit this tbl"
  shows "countsWithinLimit this (callStep this c tbl)"
proof (cases c)
  case (Check e ident)
  then show ?thesis using assms(2) by (simp add: check_table cleanupExpired_within)
next
  case (Consume e ident)
  then show ?thesis using assms by (simp add: consume_within)
next
  case (Reset e ident)
  then show ?thesis using assms(2) by (simp add: resetKey_within)
qed

lemma callsRun_within:
  assumes "0 < maxRequests this"
  shows "countsWithinLimit this tbl \<Longrightarrow> countsWithinLimit this (callsRun this cs tbl)"
proof (induction cs arbitrary: tbl)
  case Nil
  then show ?case by simp
next
  case (Cons c cs)
  from assms Cons.prems have "countsWithinLimit this (callStep this c tbl)"
    by (rule callStep_within)
  then show ?case using Cons.IH by simp
qed

lemma consume_error_keeps_record:
  "fst (consume this e tbl ident) = Inl (RateLimitError s) \<Longrightarrow>
     snd (consume this e tbl ident) (generateKey ident) = tbl (generateKey ident)"
  by (auto simp add: consume_def Let_def findUnique_def upsert_def update_increment_def
        cleanupExpired_eq liveView_def split: option.splits if_splits)

text \<open>
  Claim C6. Let \<open>maxRequests > 0\<close> and start from a table in which no count exceeds
  \<open>maxRequests\<close> (the empty table, for one). After any sequence of \<^verbatim>\<open>check\<close>, \<^verbatim>\<open>consume\<close> and
  \<^verbatim>\<open>reset\<close> calls, with any clock readings and any storage failures, every stored record
  has \<open>count \<le> maxRequests\<close>, and so has every record whose window has not expired. In
  such a state a \<^verbatim>\<open>consume\<close> for a key whose record is live with \<open>count \<ge> maxRequests\<close>
  throws \<^verbatim>\<open>RateLimitError\<close>, and whenever \<^verbatim>\<open>consume\<close> throws \<^verbatim>\<open>RateLimitError\<close> the record
  of the key is the one stored before the call.
\<close>

theorem count_never_exceeds_limit:
  assumes "0 < maxRequests this" and "countsWithinLimit this tbl0"
    and "tbl = callsRun this cs tbl0"
  shows "(\<forall>k r. tbl k = Some r \<longrightarrow> count r \<le> maxRequests this)
       \<and> (\<forall>e ident r. tbl (generateKey ident) = Some r \<and> maxRequests this \<le> count r
              \<and> clk_cleanup e \<le> clk_now e \<and> clk_now e \<le> expiresAt r \<and> \<not> fail_find e
            \<longrightarrow> fst (consume this e tbl ident) =
                  Inl (RateLimitError (ceilSeconds (expiresAt r - clk_now e))))
       \<and> (\<forall>e ident s. fst (consume this e tbl ident) = Inl (RateLimitError s)
            \<longrightarrow> snd (consume this e tbl ident) (generateKey ident) = tbl (generateKey ident))"
proof -
  have "countsWithinLimit this tbl"
    using assms by (simp add: callsRun_within)
  then have inv: "\<forall>k r. tbl k = Some r \<longrightarrow> count r \<le> maxRequests this"
    by (simp add: countsWithinLimit_def)
  have rejected: "fst (consume this e tbl ident) =
                  Inl (RateLimitError (ceilSeconds (expiresAt r - clk_now e)))"
    if "tbl (generateKey ident) = Some r" "maxRequests this \<le> count r"
       "clk_cleanup e \<le> clk_now e" "clk_now e \<le> expiresAt r" "\<not> fail_find e"
    for e ident r
  proof -
    from that have kept: "cleanupExpired e tbl (generateKey ident) = Some r"
      by (intro cleanupExpired_live) simp_all
    from that have live: "\<not> expiresAt r < clk_now e" by simp
    from consume_reject[OF kept live that(2,5)] show ?thesis by simp
  qed
  have unrecorded: "snd (consume this e tbl ident) (generateKey ident) = tbl (generateKey ident)"
    if "fst (consume this e tbl ident) = Inl (RateLimitError s)" for e ident s
    using that by (rule consume_error_keeps_record)
  from inv rejected unrecorded show ?thesis by blast
qed


theorem count_never_exceeds_limit_witness:
  "callsRun \<lparr>maxRequests = 2, windowMs = 1000\<rparr>
      [Consume (callAt 0) ''a'', Check (callAt 1) ''a'', Consume (callAt 2) ''a'',
       Consume (callAt 3) ''a''] Map.empty ''rate_limit:a''
     = Some \<lparr>count = 2, expiresAt = 1000\<rparr>
   \<and> fst (consume \<lparr>maxRequests = 2, windowMs = 1000\<rparr> (callAt 4)
           (callsRun \<lparr>maxRequests = 2, windowMs = 1000\<rparr>
              [Consume (callAt 0) ''a'', Check (callAt 1) ''a'', Consume (callAt 2) ''a'',
               Consume (callAt 3) ''a''] Map.empty) ''a'')
     = Inl (RateLimitError 1)"
proof -
  let ?L = "\<lparr>maxRequests = 2, windowMs = 1000\<rparr>"
  let ?cs = "[Consume (callAt 0) ''a'', Check (callAt 1) ''a'', Consume (callAt 2) ''a'',
              Consume (callAt 3) ''a'']"
  let ?tbl = "callsRun ?L ?cs Map.empty"
  let ?r = "\<lparr>count = 2, expiresAt = 1000\<rparr>"
  have h1: "0 < maxRequests ?L" by simp
  have h2: "countsWithinLimit ?L Map.empty" by (simp add: countsWithinLimit_def)
  have stored: "?tbl (generateKey ''a'') = Some ?r"
    by (simp add: check_def consume_def Let_def callAt_def generateKey_def cleanupExpired_def
          deleteMany_expired_def findUnique_def upsert_def update_increment_def
          calculateResetTime_def)
  have cond: "?tbl (generateKey ''a'') = Some ?r \<and> maxRequests ?L \<le> count ?r
      \<and> clk_cleanup (callAt 4) \<le> clk_now (callAt 4) \<and> clk_now (callAt 4) \<le> expiresAt ?r
      \<and> \<not> fail_find (callAt 4)"
    using stored by (simp add: callAt_def)
  from count_never_exceeds_limit[OF h1 h2 refl, of ?cs]
  have "\<forall>e ident r. ?tbl (generateKey ident) = Some r \<and> maxRequests ?L \<le> count r
              \<and> clk_cleanup e \<le> clk_now e \<and> clk_now e \<le> expiresAt r \<and> \<not> fail_find e
            \<longrightarrow> fst (consume ?L e ?tbl ident) =
                  Inl (RateLimitError (ceilSeconds (expiresAt r - clk_now e)))"
    by blast
  with cond have "fst (consume ?L (callAt 4) ?tbl ''a'') =
                  Inl (RateLimitError (ceilSeconds (expiresAt ?r - clk_now (callAt 4))))"
    by blast
  with stored show ?thesis
    by (simp add: generateKey_def callAt_def ceilSeconds_def)
qed

subsection \<open>What check changes\<close>






lemma consume_on_swept:
  "consume this e tbl ident =
     (let key = generateKey ident; tbl1 = cleanupExpired e tbl in
      if fail_find e then (Inl StorageError, tbl1)
      else if absentOrExpired tbl1 key (clk_now e) then
        (if fail_write e then (Inl StorageError, tbl1)
         else case tbl1 key of
                Some _ \<Rightarrow> (Inr (infoOf this \<lparr>count = 1, expiresAt = clk_reset1 e + windowMs this\<rparr>),
                           tbl1(key \<mapsto> \<lparr>count = 1, expiresAt = clk_reset1 e + windowMs this\<rparr>))
              | None \<Rightarrow> (Inr (infoOf this \<lparr>count = 1, expiresAt = clk_reset2 e + windowMs this\<rparr>),
                         tbl1(key \<mapsto> \<lparr>count = 1, expiresAt = clk_reset2 e + windowMs this\<rparr>)))
      else case tbl1 key of
             None \<Rightarrow> (Inl StorageError, tbl1)
           | Some r \<Rightarrow>
               if maxRequests this \<le> count r
               then (Inl (RateLimitError (ceilSeconds (expiresAt r - clk_now e))), tbl1)
               else if fail_write e then (Inl StorageError, tbl1)
               else (Inr (infoOf this (r\<lparr>count := count r + 1\<rparr>)),
                     tbl1(key \<mapsto> r\<lparr>count := count r + 1\<rparr>)))"
proof (cases "cleanupExpired e tbl (generateKey ident)")
  case None
  then show ?thesis
    by (simp add: consume_def Let_def findUnique_def upsert_def absentOrExpired_def
          calculateResetTime_def)
next
  case (Some r)
  then show ?thesis
    by (simp add: consume_def Let_def findUnique_def upsert_def update_increment_def
          absentOrExpired_def calculateResetTime_def)
qed








subsection \<open>Storage failures\<close>

lemma check_on_swept:
  "fst (check this e tbl ident) =
     (if fail_find e then Inl StorageError
      else if absentOrExpired (cleanupExpired e tbl) (generateKey ident) (clk_now e)
        then Inr \<lparr>limit = maxRequests this, remaining = maxRequests this,
                  reset = ceilSeconds (clk_reset1 e + windowMs this)\<rparr>
      else case cleanupExpired e tbl (generateKey ident) of
             None \<Rightarrow> Inl StorageError
           | Some r \<Rightarrow> Inr (infoOf this r))"
  by (cases "cleanupExpired e tbl (generateKey ident)")
     (simp_all add: check_def Let_def findUnique_def absentOrExpired_def calculateResetTime_def)

text \<open>
  Claim C7. If \<^verbatim>\<open>findUnique\<close> throws, \<^verbatim>\<open>consume\<close> and \<^verbatim>\<open>check\<close> throw that storage error. If
  the write of \<^verbatim>\<open>consume\<close> (\<^verbatim>\<open>upsert\<close> or the increment) throws, \<^verbatim>\<open>consume\<close> throws that
  storage error; the only call a failing write does not affect is the one that makes no
  write, the rejection of a live record at its limit. If only the sweep of
  \<^verbatim>\<open>cleanupExpired\<close> throws, the call goes on with the table unswept: \<^verbatim>\<open>check\<close> returns a
  value and \<^verbatim>\<open>consume\<close> does not throw a storage error.
\<close>

theorem storage_failure_propagation:
  "(fail_find e1 \<longrightarrow>
      fst (consume this e1 tbl ident) = Inl StorageError
      \<and> fst (check this e1 tbl ident) = Inl StorageError)
   \<and> (\<not> fail_find e2 \<and> fail_write e2 \<longrightarrow>
        fst (consume this e2 tbl ident) = Inl StorageError
        \<or> (\<exists>r. cleanupExpired e2 tbl (generateKey ident) = Some r
              \<and> \<not> expiresAt r < clk_now e2 \<and> maxRequests this \<le> count r
              \<and> fst (consume this e2 tbl ident) =
                  Inl (RateLimitError (ceilSeconds (expiresAt r - clk_now e2)))))
   \<and> (fail_cleanup e3 \<and> \<not> fail_find e3 \<longrightarrow>
        (\<exists>info. fst (check this e3 tbl ident) = Inr info)
        \<and> snd (check this e3 tbl ident) = tbl
        \<and> (\<not> fail_write e3 \<longrightarrow> fst (consume this e3 tbl ident) \<noteq> Inl StorageError))"
proof -
  have find_fails: "fst (consume this e1 tbl ident) = Inl StorageError
      \<and> fst (check this e1 tbl ident) = Inl StorageError" if "fail_find e1"
    using that by (simp add: consume_on_swept check_on_swept Let_def)
  have write_fails: "fst (consume this e2 tbl ident) = Inl StorageError
        \<or> (\<exists>r. cleanupExpired e2 tbl (generateKey ident) = Some r
              \<and> \<not> expiresAt r < clk_now e2 \<and> maxRequests this \<le> count r
              \<and> fst (consume this e2 tbl ident) =
                  Inl (RateLimitError (ceilSeconds (expiresAt r - clk_now e2))))"
    if "\<not> fail_find e2" "fail_write e2"
  proof (cases "cleanupExpired e2 tbl (generateKey ident)")
    case None
    with that show ?thesis
      by (simp add: consume_on_swept Let_def absentOrExpired_def)
  next
    case (Some r)
    with that show ?thesis
      by (simp add: consume_on_swept Let_def absentOrExpired_def)
  qed
  have sweep_fails: "(\<exists>info. fst (check this e3 tbl ident) = Inr info)
        \<and> snd (check this e3 tbl ident) = tbl
        \<and> (\<not> fail_write e3 \<longrightarrow> fst (consume this e3 tbl ident) \<noteq> Inl StorageError)"
    if "fail_cleanup e3" "\<not> fail_find e3"
  proof (cases "cleanupExpired e3 tbl (generateKey ident)")
    case None
    with that show ?thesis
      by (simp add: consume_on_swept check_on_swept check_table Let_def absentOrExpired_def
            cleanupExpired_eq)
  next
    case (Some r)
    with that show ?thesis
      by (simp add: consume_on_swept check_on_swept check_table Let_def absentOrExpired_def
            cleanupExpired_eq)
  qed
  from find_fails write_fails sweep_fails show ?thesis by blast
qed

theorem storage_failure_propagation_witness:
  "fst (consume \<lparr>maxRequests = 3, windowMs = 1000\<rparr> ((callAt 5) \<lparr>fail_find := True\<rparr>)
          Map.empty ''a'') = Inl StorageError
   \<and> fst (check \<lparr>maxRequests = 3, windowMs = 1000\<rparr> ((callAt 5) \<lparr>fail_find := True\<rparr>)
          Map.empty ''a'') = Inl StorageError
   \<and> fst (consume \<lparr>maxRequests = 3, windowMs = 1000\<rparr> ((callAt 5) \<lparr>fail_write := True\<rparr>)
          Map.empty ''a'') = Inl StorageError
   \<and> fst (consume \<lparr>maxRequests = 3, windowMs = 1000\<rparr> ((callAt 5) \<lparr>fail_cleanup := True\<rparr>)
          Map.empty ''a'') \<noteq> Inl StorageError"
  using storage_failure_propagation
          [of "(callAt 5) \<lparr>fail_find := True\<rparr>" "\<lparr>maxRequests = 3, windowMs = 1000\<rparr>"
              Map.empty "''a''" "(callAt 5) \<lparr>fail_write := True\<rparr>"
              "(callAt 5) \<lparr>fail_cleanup := True\<rparr>"]
  by (simp add: callAt_def cleanupExpired_def deleteMany_expired_def)

end
